theory Spec2Isabelle
  imports Main "HOL-Library.Char_ord"
begin

section \<open>Strings and the regular expressions of the sources\<close>

text \<open>
  A JavaScript string is modelled as a \<^typ>\<open>string\<close>, a list of code units; the model covers
  the code units below 256. The character classes are those of ECMAScript restricted to
  that range: \<open>\s\<close> is TAB, LF, VT, FF, CR, SPACE and NBSP; the line terminators that
  \<open>.\<close> refuses are LF and CR; \<open>\d\<close> is \<open>0\<close>..\<open>9\<close>.
\<close>

definition isSpace :: "char \<Rightarrow> bool" where
  "isSpace c = (c = CHR 0x09 \<or> c = CHR 0x0A \<or> c = CHR 0x0B \<or> c = CHR 0x0C \<or> c = CHR 0x0D
                 \<or> c = CHR 0x20 \<or> c = CHR 0xA0)"

definition isLineTerminator :: "char \<Rightarrow> bool" where
  "isLineTerminator c = (c = CHR 0x0A \<or> c = CHR 0x0D)"

definition isDigit :: "char \<Rightarrow> bool" where
  "isDigit c = (CHR ''0'' \<le> c \<and> c \<le> CHR ''9'')"

text \<open>
  The \<open>i\<close> flag compares canonicalised code units. Every pattern of the sources that carries
  the flag is made of ASCII letters and a colon, and ECMAScript never canonicalises a
  non-ASCII code unit to an ASCII one, so upper-casing \<open>a\<close>..\<open>z\<close> decides the comparison.
\<close>

definition canonicalize :: "char \<Rightarrow> char" where
  "canonicalize c =
     (case map_of (zip ''abcdefghijklmnopqrstuvwxyz'' ''ABCDEFGHIJKLMNOPQRSTUVWXYZ'') c of
        Some u \<Rightarrow> u
      | None \<Rightarrow> c)"

definition toUpperCase :: "string \<Rightarrow> string" where
  "toUpperCase s = map canonicalize s"

text \<open>\<open>String.prototype.trim\<close>: white space and line terminators go from both ends.\<close>

definition trim :: "string \<Rightarrow> string" where
  "trim s = rev (dropWhile isSpace (rev (dropWhile isSpace s)))"

text \<open>
  Matching a literal at the head of the text returns the text after it. \<open>matchLit\<close> is the
  case-sensitive match, \<open>matchCI\<close> the one under the \<open>i\<close> flag.
\<close>

fun matchLit :: "string \<Rightarrow> string \<Rightarrow> string option" where
  "matchLit [] s = Some s"
| "matchLit (p # ps) [] = None"
| "matchLit (p # ps) (c # cs) = (if p = c then matchLit ps cs else None)"

fun matchCI :: "string \<Rightarrow> string \<Rightarrow> string option" where
  "matchCI [] s = Some s"
| "matchCI (p # ps) [] = None"
| "matchCI (p # ps) (c # cs) =
     (if canonicalize p = canonicalize c then matchCI ps cs else None)"

text \<open>An unanchored search tries every start position from the left.\<close>

fun searchCI :: "string \<Rightarrow> string \<Rightarrow> string option" where
  "searchCI pat [] = matchCI pat []"
| "searchCI pat (c # cs) =
     (case matchCI pat (c # cs) of
        Some r \<Rightarrow> Some r
      | None \<Rightarrow> searchCI pat cs)"

section \<open>parseEvents: the event block parser\<close>

text \<open>
  \<open>ParsedEvent\<close> of parseEvents and \<open>CalendarEvent\<close> of CalendarButton declare the same
  fields, and TypeScript types are structural: one record serves both. \<open>originalLink\<close> is
  optional in both; \<open>None\<close> is \<open>undefined\<close>.
\<close>

record CalendarEvent =
  title :: string
  date :: string
  time :: string
  location :: string
  description :: string
  originalLink :: "string option"

type_synonym ParsedEvent = CalendarEvent

text \<open>
  \<open>extractField\<close> builds \<open>new RegExp(field + ":\\s*(.*)", "i")\<close> and takes capture 1 of the
  leftmost match, trimmed, or the empty string when nothing matches. After the field name
  and the colon the greedy \<open>\s*\<close> takes all white space, line breaks included, and the
  greedy \<open>(.*)\<close> takes the rest of the line it stops on; neither ever has to give back.
\<close>

definition extractField :: "string \<Rightarrow> string \<Rightarrow> string" where
  "extractField data field =
     (case searchCI (field @ '':'') data of
        None \<Rightarrow> []
      | Some r \<Rightarrow> trim (takeWhile (\<lambda>c. \<not> isLineTerminator c) (dropWhile isSpace r)))"

text \<open>
  \<open>/---EVENTS?---([\s\S]*?)---END-EVENTS?---/g\<close>. The opening marker is \<open>---EVENT\<close>, an
  optional \<open>S\<close> taken greedily, and \<open>---\<close>; without the \<open>S\<close> the dashes would have to start
  where the \<open>S\<close> stands, so giving the \<open>S\<close> back never helps. The lazy body stops at the
  first position where the closing marker matches.
\<close>

definition matchOpen :: "string \<Rightarrow> string option" where
  "matchOpen s =
     (case matchLit ''---EVENT'' s of
        None \<Rightarrow> None
      | Some r \<Rightarrow> (case matchLit ''S---'' r of Some r' \<Rightarrow> Some r' | None \<Rightarrow> matchLit ''---'' r))"

definition matchClose :: "string \<Rightarrow> string option" where
  "matchClose s =
     (case matchLit ''---END-EVENT'' s of
        None \<Rightarrow> None
      | Some r \<Rightarrow> (case matchLit ''S---'' r of Some r' \<Rightarrow> Some r' | None \<Rightarrow> matchLit ''---'' r))"

fun findClose :: "string \<Rightarrow> (string \<times> string) option" where
  "findClose [] = None"
| "findClose (c # cs) =
     (case matchClose (c # cs) of
        Some r \<Rightarrow> Some ([], r)
      | None \<Rightarrow> (case findClose cs of None \<Rightarrow> None | Some (b, r) \<Rightarrow> Some (c # b, r)))"

text \<open>The whole pattern at one start position: the captured body and the text after the match.\<close>

definition blockAt :: "string \<Rightarrow> (string \<times> string) option" where
  "blockAt s = (case matchOpen s of None \<Rightarrow> None | Some r \<Rightarrow> findClose r)"

lemma matchLit_append: "matchLit p s = Some r \<Longrightarrow> s = p @ r"
  by (induction p s rule: matchLit.induct) (auto split: if_splits)

lemma matchOpen_length: "matchOpen s = Some r \<Longrightarrow> length r < length s"
  by (auto simp: matchOpen_def split: option.splits dest!: matchLit_append)

lemma matchClose_length: "matchClose s = Some r \<Longrightarrow> length r < length s"
  by (auto simp: matchClose_def split: option.splits dest!: matchLit_append)

lemma findClose_length: "findClose s = Some (b, r) \<Longrightarrow> length r < length s"
proof (induction s arbitrary: b r)
  case Nil
  then show ?case by simp
next
  case (Cons c cs)
  show ?case
  proof (cases "matchClose (c # cs)")
    case (Some r')
    with Cons.prems show ?thesis by (auto dest: matchClose_length)
  next
    case None
    with Cons.prems obtain b' where "findClose cs = Some (b', r)"
      by (auto split: option.splits)
    from Cons.IH [OF this] show ?thesis by simp
  qed
qed

lemma blockAt_length: "blockAt s = Some (b, r) \<Longrightarrow> length r < length s"
  by (auto simp: blockAt_def split: option.splits
           dest!: matchOpen_length findClose_length)

text \<open>
  The \<open>while\<close> loop over \<open>eventBlockRegex.exec(content)\<close>: with the \<open>g\<close> flag, each search starts
  where the previous match ended, and tries every start position from there.
\<close>

function eventBlocks :: "string \<Rightarrow> string list" where
  "eventBlocks [] = []"
| "eventBlocks (c # cs) =
     (case blockAt (c # cs) of
        None \<Rightarrow> eventBlocks cs
      | Some (b, rest) \<Rightarrow> b # eventBlocks rest)"
  by pat_completeness auto
termination
  by (relation "measure length") (auto dest: blockAt_length)

text \<open>
  \<open>eventsBlock.split(/(?=title:)/g)\<close>: the text is cut before every occurrence of \<open>title:\<close>
  except one at its very start (the lookahead is case-sensitive); the text without any
  cut, the empty text included, is a single piece.
\<close>

fun splitAcc :: "string \<Rightarrow> string \<Rightarrow> string list" where
  "splitAcc cur [] = [cur]"
| "splitAcc cur (c # cs) =
     (if cur \<noteq> [] \<and> matchLit ''title:'' (c # cs) \<noteq> None
      then cur # splitAcc [c] cs
      else splitAcc (cur @ [c]) cs)"

definition splitTitle :: "string \<Rightarrow> string list" where
  "splitTitle s = splitAcc [] s"

definition mkEvent :: "string \<Rightarrow> ParsedEvent" where
  "mkEvent eventData =
     \<lparr> title = extractField eventData ''title'',
       date = extractField eventData ''date'',
       time = extractField eventData ''time'',
       location = extractField eventData ''location'',
       description = extractField eventData ''description'',
       originalLink = Some (extractField eventData ''originalLink'') \<rparr>"

text \<open>The truthiness test \<open>event.title && event.date && event.time\<close>: a string is truthy when non-empty.\<close>

definition hasRequired :: "ParsedEvent \<Rightarrow> bool" where
  "hasRequired e = (title e \<noteq> [] \<and> date e \<noteq> [] \<and> time e \<noteq> [])"

definition eventEntries :: "string \<Rightarrow> string list" where
  "eventEntries eventsBlock = filter (\<lambda>entry. trim entry \<noteq> []) (splitTitle eventsBlock)"

definition parseBlock :: "string \<Rightarrow> ParsedEvent list" where
  "parseBlock eventsBlock = filter hasRequired (map mkEvent (eventEntries eventsBlock))"

definition parseEventsFromContent :: "string \<Rightarrow> ParsedEvent list" where
  "parseEventsFromContent content = concat (map parseBlock (eventBlocks content))"

text \<open>\<open>content.replace(/---EVENTS?---[\s\S]*?---END-EVENTS?---/g, '')\<close>: one pass, left to right.\<close>

function stripEventBlocks :: "string \<Rightarrow> string" where
  "stripEventBlocks [] = []"
| "stripEventBlocks (c # cs) =
     (case blockAt (c # cs) of
        None \<Rightarrow> c # stripEventBlocks cs
      | Some (b, rest) \<Rightarrow> stripEventBlocks rest)"
  by pat_completeness auto
termination
  by (relation "measure length") (auto dest: blockAt_length)

section \<open>Dates and times\<close>

text \<open>
  What the sources use of the host: \<open>new Date(dateStr)\<close>, whose parse of the non-ISO
  shapes is implementation-defined, and \<open>new Date()\<close>, the clock. Both are parameters. Of a
  \<open>Date\<close> the sources read \<open>getFullYear()\<close>, \<open>getMonth()\<close> (0 is January) and \<open>getDate()\<close>.
\<close>

record JSDate =
  fullYear :: int
  monthIndex :: int
  dayOfMonth :: int

record Host =
  dateFromString :: "string \<Rightarrow> JSDate option"
  currentDate :: JSDate

text \<open>
  \<open>new Date(year, monthIndex, day)\<close> is the local midnight of that day after ECMAScript's
  normalisation: a year from 0 to 99 means 1900 + year, whole years are carried out of the
  month index, and a day below 1 or beyond the month's length runs into the neighbouring
  months. The getters read the same local calendar back (this holds wherever that local
  midnight exists in the host's time zone).
\<close>

definition isLeapYear :: "int \<Rightarrow> bool" where
  "isLeapYear y = (y mod 4 = 0 \<and> (y mod 100 \<noteq> 0 \<or> y mod 400 = 0))"

definition daysInMonth :: "int \<Rightarrow> int \<Rightarrow> int" where
  "daysInMonth y m =
     (if m = 1 then (if isLeapYear y then 29 else 28)
      else if m = 3 \<or> m = 5 \<or> m = 8 \<or> m = 10 then 30
      else 31)"

function normDay :: "int \<Rightarrow> int \<Rightarrow> int \<Rightarrow> JSDate" where
  "normDay y m d =
     (if d < 1 then
        (let y' = (if m = 0 then y - 1 else y); m' = (if m = 0 then 11 else m - 1)
         in normDay y' m' (d + daysInMonth y' m'))
      else if daysInMonth y m < d then
        (let y' = (if m = 11 then y + 1 else y); m' = (if m = 11 then 0 else m + 1)
         in normDay y' m' (d - daysInMonth y m))
      else \<lparr> fullYear = y, monthIndex = m, dayOfMonth = d \<rparr>)"
  by pat_completeness auto
termination
  by (relation "measure (\<lambda>(y, m, d). nat (if d < 1 then 32 - d else d))")
     (auto simp: daysInMonth_def Let_def)

declare normDay.simps [simp del]

definition newDate :: "int \<Rightarrow> int \<Rightarrow> int \<Rightarrow> JSDate" where
  "newDate year m d =
     (let yr = (if 0 \<le> year \<and> year \<le> 99 then 1900 + year else year)
      in normDay (yr + m div 12) (m mod 12) d)"

text \<open>Decimal digits: \<open>parseInt\<close> on a string of digits, and a number's \<open>toString()\<close>.\<close>

definition digitVal :: "char \<Rightarrow> nat" where
  "digitVal c = of_char c - 48"

definition parseInt :: "string \<Rightarrow> nat" where
  "parseInt ds = foldl (\<lambda>a c. 10 * a + digitVal c) 0 ds"

definition digitChar :: "nat \<Rightarrow> char" where
  "digitChar n = ''0123456789'' ! (n mod 10)"

function showNat :: "nat \<Rightarrow> string" where
  "showNat n = (if n < 10 then [digitChar n] else showNat (n div 10) @ [digitChar n])"
  by pat_completeness auto
termination
  by (relation "measure id") auto

declare showNat.simps [simp del]

definition showInt :: "int \<Rightarrow> string" where
  "showInt i = (if i < 0 then CHR ''-'' # showNat (nat (- i)) else showNat (nat i))"

text \<open>\<open>padStart(2, '0')\<close>.\<close>

definition padStart2 :: "string \<Rightarrow> string" where
  "padStart2 s = replicate (2 - length s) (CHR ''0'') @ s"

text \<open>
  Pieces of the time and date patterns. \<open>\d{n}\<close> takes exactly \<open>n\<close> digits. \<open>\d{1,2}\<close> is
  greedy; in every pattern of the sources a separator follows it, and after giving the
  second digit back the separator would have to match that digit, so the first choice
  decides.
\<close>

fun takeDigits :: "nat \<Rightarrow> string \<Rightarrow> (string \<times> string) option" where
  "takeDigits 0 s = Some ([], s)"
| "takeDigits (Suc n) [] = None"
| "takeDigits (Suc n) (c # cs) =
     (if isDigit c
      then (case takeDigits n cs of None \<Rightarrow> None | Some (ds, r) \<Rightarrow> Some (c # ds, r))
      else None)"

definition takeDigits12 :: "string \<Rightarrow> (string \<times> string) option" where
  "takeDigits12 s = (case takeDigits 2 s of Some x \<Rightarrow> Some x | None \<Rightarrow> takeDigits 1 s)"

text \<open>\<open>/^\d{4}-\d{2}-\d{2}$/\<close>, with the three pieces that \<open>split('-')\<close> then yields.\<close>

definition matchIsoDate :: "string \<Rightarrow> (string \<times> string \<times> string) option" where
  "matchIsoDate s =
     (case takeDigits 4 s of None \<Rightarrow> None | Some (y, r1) \<Rightarrow>
      (case matchLit ''-'' r1 of None \<Rightarrow> None | Some r2 \<Rightarrow>
       (case takeDigits 2 r2 of None \<Rightarrow> None | Some (m, r3) \<Rightarrow>
        (case matchLit ''-'' r3 of None \<Rightarrow> None | Some r4 \<Rightarrow>
         (case takeDigits 2 r4 of None \<Rightarrow> None | Some (d, r5) \<Rightarrow>
          (if r5 = [] then Some (y, m, d) else None))))))"

text \<open>\<open>\d{1,2}:\d{2}\<close> at the head of the text: hours, minutes and the text after them.\<close>

definition matchHM :: "string \<Rightarrow> (string \<times> string \<times> string) option" where
  "matchHM s =
     (case takeDigits12 s of None \<Rightarrow> None | Some (h, r1) \<Rightarrow>
      (case matchLit '':'' r1 of None \<Rightarrow> None | Some r2 \<Rightarrow>
       (case takeDigits 2 r2 of None \<Rightarrow> None | Some (mi, r3) \<Rightarrow> Some (h, mi, r3))))"

text \<open>\<open>\s*(AM|PM)\<close> under the \<open>i\<close> flag: the two letters as written, and the text after them.\<close>

definition matchMeridiem :: "string \<Rightarrow> (string \<times> string) option" where
  "matchMeridiem s =
     (let r = dropWhile isSpace s
      in case matchCI ''AM'' r of
           Some r' \<Rightarrow> Some (take 2 r, r')
         | None \<Rightarrow> (case matchCI ''PM'' r of Some r' \<Rightarrow> Some (take 2 r, r') | None \<Rightarrow> None))"

text \<open>\<open>/^\d{1,2}:\d{2}\s*(AM|PM)$/i.test\<close> and \<open>/^\d{1,2}:\d{2}$/.test\<close>.\<close>

definition isTime12 :: "string \<Rightarrow> bool" where
  "isTime12 s =
     (case matchHM s of None \<Rightarrow> False | Some (h, mi, r) \<Rightarrow>
      (case matchMeridiem r of None \<Rightarrow> False | Some (ap, r') \<Rightarrow> r' = []))"

definition matchTime24 :: "string \<Rightarrow> (string \<times> string) option" where
  "matchTime24 s =
     (case matchHM s of None \<Rightarrow> None | Some (h, mi, r) \<Rightarrow> if r = [] then Some (h, mi) else None)"

text \<open>\<open>normalizedTime.match(/(\d{1,2}):(\d{2})\s*(AM|PM)/i)\<close>: unanchored, the three captures.\<close>

definition timeAt :: "string \<Rightarrow> (string \<times> string \<times> string) option" where
  "timeAt s =
     (case matchHM s of None \<Rightarrow> None | Some (h, mi, r) \<Rightarrow>
      (case matchMeridiem r of None \<Rightarrow> None | Some (ap, r') \<Rightarrow> Some (h, mi, ap)))"

fun timeMatch :: "string \<Rightarrow> (string \<times> string \<times> string) option" where
  "timeMatch [] = None"
| "timeMatch (c # cs) =
     (case timeAt (c # cs) of Some m \<Rightarrow> Some m | None \<Rightarrow> timeMatch cs)"

subsection \<open>CalendarEventRenderer\<close>

text \<open>
  \<open>parseDate\<close>: the strict ISO shape is built from its three numbers; the two other named
  shapes and the remaining case all evaluate \<open>new Date(dateStr)\<close>. An invalid date throws
  inside the \<open>try\<close>, and the \<open>catch\<close> answers \<open>new Date()\<close>.
\<close>

definition parseDate :: "Host \<Rightarrow> string \<Rightarrow> JSDate" where
  "parseDate host dateStr =
     (case matchIsoDate dateStr of
        Some (year, month, day) \<Rightarrow>
          newDate (int (parseInt year)) (int (parseInt month) - 1) (int (parseInt day))
      | None \<Rightarrow>
          (case dateFromString host dateStr of
             Some d \<Rightarrow> d
           | None \<Rightarrow> currentDate host))"

definition formatDisplayTime :: "string \<Rightarrow> string" where
  "formatDisplayTime timeStr =
     (if isTime12 timeStr then timeStr
      else case matchTime24 timeStr of
        Some (hours, minutes) \<Rightarrow>
          (let hour24 = parseInt hours;
               hour12 = (if hour24 = 0 then 12 else if hour24 > 12 then hour24 - 12 else hour24);
               ampm = (if hour24 < 12 then ''AM'' else ''PM'')
           in showNat hour12 @ '':'' @ minutes @ '' '' @ ampm)
      | None \<Rightarrow> timeStr)"

text \<open>
  \<open>formatDateTime\<close>. Nothing inside its \<open>try\<close> throws (\<open>parseDate\<close> catches its own error),
  so its \<open>catch\<close> is never entered.
\<close>

definition formatDateTime :: "Host \<Rightarrow> string \<Rightarrow> string \<Rightarrow> string" where
  "formatDateTime host dateStr timeStr =
     (let parsedDate = parseDate host dateStr;
          year = showInt (fullYear parsedDate);
          month = padStart2 (showInt (monthIndex parsedDate + 1));
          day = padStart2 (showInt (dayOfMonth parsedDate));
          normalizedTime = formatDisplayTime timeStr
      in case timeMatch normalizedTime of
           None \<Rightarrow> year @ ''-'' @ month @ ''-'' @ day @ ''T12:00:00-06:00''
         | Some (h, minutes, ap) \<Rightarrow>
             (let hours0 = parseInt h;
                  ampm = toUpperCase ap;
                  hours1 = (if ampm = ''PM'' \<and> hours0 \<noteq> 12 then hours0 + 12 else hours0);
                  hours = (if ampm = ''AM'' \<and> hours1 = 12 then 0 else hours1)
              in year @ ''-'' @ month @ ''-'' @ day @ ''T'' @ padStart2 (showNat hours)
                 @ '':'' @ minutes @ '':00-06:00''))"

subsection \<open>CalendarButton\<close>

text \<open>CalendarButton declares its own \<open>parseDate\<close>, \<open>formatDisplayTime\<close> and \<open>formatDateTime\<close>.\<close>

definition CalendarButton_parseDate :: "Host \<Rightarrow> string \<Rightarrow> JSDate" where
  "CalendarButton_parseDate host dateStr =
     (case matchIsoDate dateStr of
        Some (year, month, day) \<Rightarrow>
          newDate (int (parseInt year)) (int (parseInt month) - 1) (int (parseInt day))
      | None \<Rightarrow>
          (case dateFromString host dateStr of
             Some d \<Rightarrow> d
           | None \<Rightarrow> currentDate host))"

definition CalendarButton_formatDisplayTime :: "string \<Rightarrow> string" where
  "CalendarButton_formatDisplayTime timeStr =
     (if isTime12 timeStr then timeStr
      else case matchTime24 timeStr of
        Some (hours, minutes) \<Rightarrow>
          (let hour24 = parseInt hours;
               hour12 = (if hour24 = 0 then 12 else if hour24 > 12 then hour24 - 12 else hour24);
               ampm = (if hour24 < 12 then ''AM'' else ''PM'')
           in showNat hour12 @ '':'' @ minutes @ '' '' @ ampm)
      | None \<Rightarrow> timeStr)"

definition CalendarButton_formatDateTime :: "Host \<Rightarrow> string \<Rightarrow> string \<Rightarrow> string" where
  "CalendarButton_formatDateTime host dateStr timeStr =
     (let parsedDate = CalendarButton_parseDate host dateStr;
          year = showInt (fullYear parsedDate);
          month = padStart2 (showInt (monthIndex parsedDate + 1));
          day = padStart2 (showInt (dayOfMonth parsedDate));
          normalizedTime = CalendarButton_formatDisplayTime timeStr
      in case timeMatch normalizedTime of
           None \<Rightarrow> year @ ''-'' @ month @ ''-'' @ day @ ''T12:00:00-06:00''
         | Some (h, minutes, ap) \<Rightarrow>
             (let hours0 = parseInt h;
                  ampm = toUpperCase ap;
                  hours1 = (if ampm = ''PM'' \<and> hours0 \<noteq> 12 then hours0 + 12 else hours0);
                  hours = (if ampm = ''AM'' \<and> hours1 = 12 then 0 else hours1)
              in year @ ''-'' @ month @ ''-'' @ day @ ''T'' @ padStart2 (showNat hours)
                 @ '':'' @ minutes @ '':00-06:00''))"

section \<open>Invitations\<close>

text \<open>
  The request body \<open>{ email, event: { title, date, location, description, url } }\<close>; the
  fields of the two records carry the JSON keys in their names.
\<close>

record InviteEvent =
  inviteTitle :: string
  inviteDate :: string
  inviteLocation :: string
  inviteDescription :: string
  inviteUrl :: string

record InvitePayload =
  payloadEmail :: string
  payloadEvent :: InviteEvent

text \<open>
  The props the two components share. \<open>organizationName\<close> defaults to \<open>DeSilo\<close> when it is
  \<open>undefined\<close>; \<open>curatedByText || ...\<close> falls to the default text when \<open>curatedByText\<close> is
  \<open>undefined\<close> or empty.
\<close>

record Props =
  apiBase :: string
  organizationName :: "string option"
  curatedByText :: "string option"

definition orgName :: "Props \<Rightarrow> string" where
  "orgName props = (case organizationName props of None \<Rightarrow> ''DeSilo'' | Some n \<Rightarrow> n)"

definition truthy :: "string option \<Rightarrow> bool" where
  "truthy v = (case v of None \<Rightarrow> False | Some s \<Rightarrow> s \<noteq> [])"

definition byText :: "Props \<Rightarrow> string" where
  "byText props =
     (if truthy (curatedByText props) then the (curatedByText props)
      else ''Curated by '' @ orgName props @ '' AI Assistant'')"

definition newline :: char where
  "newline = CHR 0x0A"

text \<open>The template of the description and \<open>event.originalLink || ''\<close>, the same in both components.\<close>

definition describeEvent :: "Props \<Rightarrow> CalendarEvent \<Rightarrow> string" where
  "describeEvent props event =
     byText props @ [newline, newline] @ description event @ [newline, newline]
     @ (if truthy (originalLink event) then ''View original event: '' @ the (originalLink event)
        else [])"

definition linkOrEmpty :: "CalendarEvent \<Rightarrow> string" where
  "linkOrEmpty event = (if truthy (originalLink event) then the (originalLink event) else [])"

text \<open>The body built in \<open>handleAddAllToCalendar\<close> for each event.\<close>

definition bulkPayload :: "Host \<Rightarrow> Props \<Rightarrow> string \<Rightarrow> CalendarEvent \<Rightarrow> InvitePayload" where
  "bulkPayload host props email event =
     \<lparr> payloadEmail = email,
       payloadEvent =
         \<lparr> inviteTitle = ''['' @ orgName props @ ''] '' @ title event,
           inviteDate = formatDateTime host (date event) (time event),
           inviteLocation = location event,
           inviteDescription = describeEvent props event,
           inviteUrl = linkOrEmpty event \<rparr> \<rparr>"

text \<open>The body built in \<open>handleAddToCalendar\<close>.\<close>

definition singlePayload :: "Host \<Rightarrow> Props \<Rightarrow> string \<Rightarrow> CalendarEvent \<Rightarrow> InvitePayload" where
  "singlePayload host props email event =
     \<lparr> payloadEmail = email,
       payloadEvent =
         \<lparr> inviteTitle = ''['' @ orgName props @ ''] '' @ title event,
           inviteDate = CalendarButton_formatDateTime host (date event) (time event),
           inviteLocation = location event,
           inviteDescription = describeEvent props event,
           inviteUrl = linkOrEmpty event \<rparr> \<rparr>"

section \<open>The component state and the two dispatch handlers\<close>

text \<open>
  \<open>/^[^\s@]+@[^\s@]+\.[^\s@]+$/\<close>. The first class takes the longest run of characters
  that are neither white space nor \<open>@\<close>, and the next character must be \<open>@\<close>, which no
  shorter run can offer. What follows must consist of such characters only and hold a dot
  that is neither its first nor its last character.
\<close>

definition atomChar :: "char \<Rightarrow> bool" where
  "atomChar c = (\<not> isSpace c \<and> c \<noteq> CHR ''@'')"

definition validateEmail :: "string \<Rightarrow> bool" where
  "validateEmail v =
     (takeWhile atomChar v \<noteq> [] \<and>
      (case dropWhile atomChar v of
         [] \<Rightarrow> False
       | c # host \<Rightarrow>
           c = CHR ''@'' \<and> list_all atomChar host \<and> CHR ''.'' \<in> set (butlast (tl host))))"

text \<open>
  The state hooks of a component: \<open>email\<close>, \<open>isValid\<close>, \<open>isAdding\<close>, and \<open>showInput\<close> for
  \<open>showEmailInput\<close> (CalendarButton) or \<open>showBulkEmailInput\<close> (CalendarEventRenderer);
  \<open>calendarEmail\<close> is the entry of \<open>localStorage\<close> under that key.
\<close>

record UIState =
  email :: string
  isValid :: bool
  isAdding :: bool
  showInput :: bool
  calendarEmail :: "string option"

definition initialState :: "string option \<Rightarrow> UIState" where
  "initialState stored =
     \<lparr> email = [], isValid = False, isAdding = False, showInput = False, calendarEmail = stored \<rparr>"

text \<open>The mount effect and \<open>handleEmailChange\<close>.\<close>

definition mountEffect :: "UIState \<Rightarrow> UIState" where
  "mountEffect st =
     (if truthy (calendarEmail st)
      then st\<lparr> email := the (calendarEmail st), isValid := validateEmail (the (calendarEmail st)) \<rparr>
      else st)"

definition handleEmailChange :: "UIState \<Rightarrow> string \<Rightarrow> UIState" where
  "handleEmailChange st v =
     (let st' = st\<lparr> email := v, isValid := validateEmail v \<rparr>
      in if validateEmail v then st'\<lparr> calendarEmail := Some v \<rparr> else st')"

text \<open>
  One \<open>fetch\<close> either rejects (the network failed) or fulfils with a response, whose \<open>ok\<close>
  says whether the status is 2xx. The network is a parameter: the outcome of the call
  with a given index and body.
\<close>

datatype FetchOutcome = Rejected | Responded bool

type_synonym Fetch = "nat \<Rightarrow> InvitePayload \<Rightarrow> FetchOutcome"

text \<open>
  What a handler run does: the requests it issued, the call it made to \<open>onAddToCalendar\<close>
  (when the prop is given), and the state when it has finished.
\<close>

record Run =
  requests :: "InvitePayload list"
  callback :: "(bool \<times> string) option"
  after :: UIState

text \<open>
  \<open>handleAddAllToCalendar\<close>: \<open>Promise.allSettled\<close> waits for every request, and a result
  counts when its status is \<open>fulfilled\<close>.
\<close>

definition isFulfilled :: "FetchOutcome \<Rightarrow> bool" where
  "isFulfilled r = (case r of Rejected \<Rightarrow> False | Responded ok \<Rightarrow> True)"

definition handleAddAllToCalendar ::
  "Host \<Rightarrow> Props \<Rightarrow> CalendarEvent list \<Rightarrow> Fetch \<Rightarrow> UIState \<Rightarrow> Run" where
  "handleAddAllToCalendar host props events fetch st =
     (if \<not> isValid st \<or> isAdding st \<or> events = []
      then \<lparr> requests = [], callback = None, after = st \<rparr>
      else
        (let bodies = map (bulkPayload host props (email st)) events;
             results = map (\<lambda>i. fetch i (bodies ! i)) [0 ..< length bodies];
             succeeded = length (filter isFulfilled results)
         in if succeeded > 0
            then \<lparr> requests = bodies,
                   callback = Some (True, showNat succeeded @ '' calendar invite''
                                 @ (if succeeded > 1 then ''s'' else []) @ '' sent to ''
                                 @ email st @ ''!''),
                   after = st\<lparr> showInput := False, isAdding := False \<rparr> \<rparr>
            else \<lparr> requests = bodies,
                   callback = Some (False, ''Failed to add events to calendar. Please try again.''),
                   after = st\<lparr> isAdding := False \<rparr> \<rparr>))"

text \<open>
  \<open>handleAddToCalendar\<close>: a rejected \<open>fetch\<close> and a response that is not \<open>ok\<close> both end in
  the \<open>catch\<close>.
\<close>

definition handleAddToCalendar ::
  "Host \<Rightarrow> Props \<Rightarrow> CalendarEvent \<Rightarrow> Fetch \<Rightarrow> UIState \<Rightarrow> Run" where
  "handleAddToCalendar host props event fetch st =
     (if \<not> isValid st \<or> isAdding st
      then \<lparr> requests = [], callback = None, after = st \<rparr>
      else
        (let body = singlePayload host props (email st) event
         in case fetch 0 body of
              Responded True \<Rightarrow>
                \<lparr> requests = [body],
                  callback = Some (True, ''Calendar invite sent to '' @ email st @ ''!''),
                  after = st\<lparr> showInput := False, isAdding := False \<rparr> \<rparr>
            | _ \<Rightarrow>
                \<lparr> requests = [body],
                  callback = Some (False, ''Failed to add to calendar. Please try again.''),
                  after = st\<lparr> isAdding := False \<rparr> \<rparr>))"

text \<open>
  The states a component can be in: it starts from \<open>initialState\<close>; the mount effect, an
  edit of the address, opening or closing the input, and a handler run change it. While
  the requests of a run are awaited, \<open>isAdding\<close> is set.
\<close>

inductive reachable :: "UIState \<Rightarrow> bool" where
  start: "reachable (initialState stored)"
| mount: "reachable st \<Longrightarrow> reachable (mountEffect st)"
| edit: "reachable st \<Longrightarrow> reachable (handleEmailChange st v)"
| toggle: "reachable st \<Longrightarrow> reachable (st\<lparr> showInput := b \<rparr>)"
| awaiting: "reachable st \<Longrightarrow> isValid st \<Longrightarrow> \<not> isAdding st \<Longrightarrow> reachable (st\<lparr> isAdding := True \<rparr>)"
| single: "reachable st \<Longrightarrow> reachable (after (handleAddToCalendar host props event fetch st))"
| bulk: "reachable st \<Longrightarrow> reachable (after (handleAddAllToCalendar host props events fetch st))"

section \<open>What the statements speak of\<close>









text \<open>
  What it means that stripping deletes spans and nothing else: the text is pieces of kept
  text, each followed by a span, and a rest; the output is the kept pieces and the rest;
  and every span is one whole match of the block pattern, the spans' bodies being, in
  order, the blocks that \<open>parseEventsFromContent\<close> reads.
\<close>

definition spansOf :: "string \<Rightarrow> (string \<times> string) list \<Rightarrow> string \<Rightarrow> bool" where
  "spansOf content segs rest =
     (content = concat (map (\<lambda>(kept, span). kept @ span) segs) @ rest
      \<and> stripEventBlocks content = concat (map fst segs) @ rest
      \<and> map (\<lambda>(kept, span). blockAt span) segs = map (\<lambda>b. Some (b, [])) (eventBlocks content))"

text \<open>
  A \<open>Date\<close> of the host has a month index from 0 to 11 and a day of the month from 1 to 31.
  A host is well-formed when the dates it hands out are.
\<close>

definition wellFormedDate :: "JSDate \<Rightarrow> bool" where
  "wellFormedDate d =
     (0 \<le> monthIndex d \<and> monthIndex d \<le> 11 \<and> 1 \<le> dayOfMonth d \<and> dayOfMonth d \<le> 31)"

definition wellFormedHost :: "Host \<Rightarrow> bool" where
  "wellFormedHost host =
     (wellFormedDate (currentDate host)
      \<and> (\<forall>s. case dateFromString host s of None \<Rightarrow> True | Some d \<Rightarrow> wellFormedDate d))"

text \<open>
  Following the spec's words for a CanonicalInstant: a string of the fixed zero-padded
  shape \<open>YYYY-MM-DDTHH:MM:SS\<close> suffixed with the one hardcoded offset, which the sources
  write as \<open>-06:00\<close>.
\<close>

definition canonicalShape :: "string \<Rightarrow> bool" where
  "canonicalShape s =
     (case takeDigits 4 s of None \<Rightarrow> False | Some (y, r1) \<Rightarrow>
      (case matchLit ''-'' r1 of None \<Rightarrow> False | Some r2 \<Rightarrow>
       (case takeDigits 2 r2 of None \<Rightarrow> False | Some (m, r3) \<Rightarrow>
        (case matchLit ''-'' r3 of None \<Rightarrow> False | Some r4 \<Rightarrow>
         (case takeDigits 2 r4 of None \<Rightarrow> False | Some (d, r5) \<Rightarrow>
          (case matchLit ''T'' r5 of None \<Rightarrow> False | Some r6 \<Rightarrow>
           (case takeDigits 2 r6 of None \<Rightarrow> False | Some (h, r7) \<Rightarrow>
            (case matchLit '':'' r7 of None \<Rightarrow> False | Some r8 \<Rightarrow>
             (case takeDigits 2 r8 of None \<Rightarrow> False | Some (mi, r9) \<Rightarrow>
              (case matchLit '':'' r9 of None \<Rightarrow> False | Some r10 \<Rightarrow>
               (case takeDigits 2 r10 of None \<Rightarrow> False | Some (sec, r11) \<Rightarrow>
                r11 = ''-06:00'')))))))))))"

section \<open>Sample inputs\<close>

text \<open>Concrete values at which the theorems below are instantiated.\<close>

definition demoHost :: Host where
  "demoHost = \<lparr> dateFromString = (\<lambda>s. None),
                 currentDate = \<lparr> fullYear = 2025, monthIndex = 0, dayOfMonth = 1 \<rparr> \<rparr>"

definition demoProps :: Props where
  "demoProps = \<lparr> apiBase = ''https://api.example.org'', organizationName = None, curatedByText = None \<rparr>"

definition demoEvent :: CalendarEvent where
  "demoEvent = \<lparr> title = ''Demo'', date = ''2025-03-05'', time = ''2:30 PM'', location = ''Hall'',
                  description = ''Pitch night'', originalLink = None \<rparr>"

definition demoState :: UIState where
  "demoState = handleEmailChange (initialState None) ''a@b.co''"

definition demoContent :: string where
  "demoContent = ''Join us! ---EVENT---'' @ [newline] @ ''title: Demo'' @ [newline]
     @ ''date: 2025-03-05'' @ [newline] @ ''Time: 2:30 PM '' @ [newline] @ ''---END-EVENTS--- Bye.''"

definition splicedContent :: string where
  "splicedContent = ''---EV---EVENT---x---END-EVENT---ENT---y---END-EVENT---''"










definition noTimeBody :: string where
  "noTimeBody = [newline] @ ''title: Showtime: tonight'' @ [newline] @ ''date: 2025-03-05''
     @ [newline]"

definition noTimeContent :: string where
  "noTimeContent = ''---EVENT---'' @ noTimeBody @ ''---END-EVENT---''"

definition blankTitleBody :: string where
  "blankTitleBody = [newline] @ ''title:'' @ [newline] @ ''date: 2025-03-05'' @ [newline]
     @ ''time: 7:00 PM'' @ [newline]"

definition blankTitleContent :: string where
  "blankTitleContent = ''---EVENT---'' @ blankTitleBody @ ''---END-EVENT---''"

section \<open>The parser and the required fields\<close>

lemma parseBlock_required: "e \<in> set (parseBlock b) \<Longrightarrow> hasRequired e"
  by (simp add: parseBlock_def)

lemma parse_records_complete:
  "e \<in> set (parseEventsFromContent content) \<Longrightarrow> title e \<noteq> [] \<and> date e \<noteq> [] \<and> time e \<noteq> []"
proof -
  assume "e \<in> set (parseEventsFromContent content)"
  then have "hasRequired e"
    by (auto simp: parseEventsFromContent_def dest: parseBlock_required)
  then show ?thesis by (simp add: hasRequired_def)
qed

text \<open>
  Claim C3. The three values of every returned record are non-empty
  (\<open>parse_records_complete\<close>), but a block that misses a required field can still yield
  a record, against the claim and against the source's own comment, "Requires title,
  date, and time to all be present for an event to be included". The field pattern is
  not tied to the start of a line and its \<open>\s*\<close> runs over line breaks: a block with no
  time line gets its time from the text after \<open>Showtime:\<close>, and a block whose title is
  blank gets its title from the date line. Both blocks yield a record.
\<close>

theorem parse_incomplete_blocks_kept:
  "eventBlocks noTimeContent = [noTimeBody]
   \<and> parseEventsFromContent noTimeContent
       = [\<lparr> title = ''Showtime: tonight'', date = ''2025-03-05'', time = ''tonight'',
            location = [], description = [], originalLink = Some [] \<rparr>]
   \<and> eventBlocks blankTitleContent = [blankTitleBody]
   \<and> parseEventsFromContent blankTitleContent
       = [\<lparr> title = ''date: 2025-03-05'', date = ''2025-03-05'', time = ''7:00 PM'',
            location = [], description = [], originalLink = Some [] \<rparr>]"
proof -
  have 1: "eventBlocks noTimeContent = [noTimeBody]" by code_simp
  have 2: "parseEventsFromContent noTimeContent
       = [\<lparr> title = ''Showtime: tonight'', date = ''2025-03-05'', time = ''tonight'',
            location = [], description = [], originalLink = Some [] \<rparr>]" by code_simp
  have 3: "eventBlocks blankTitleContent = [blankTitleBody]" by code_simp
  have 4: "parseEventsFromContent blankTitleContent
       = [\<lparr> title = ''date: 2025-03-05'', date = ''2025-03-05'', time = ''7:00 PM'',
            location = [], description = [], originalLink = Some [] \<rparr>]" by code_simp
  from 1 2 3 4 show ?thesis by blast
qed

section \<open>The canonical instant\<close>

text \<open>
  Claim C5. The examples: \<open>2:30 PM\<close> and \<open>14:30\<close> on 2025-03-05 both give
  \<open>2025-03-05T14:30:00-06:00\<close>; \<open>12:00 AM\<close> gives hour \<open>00\<close> and \<open>12:00 PM\<close> gives hour \<open>12\<close>.
  In general, when the normalised time matches, the hour written is the matched hour plus
  12 for PM unless it is 12, 0 for AM when it is 12, and the matched hour otherwise.
\<close>

theorem canonical_instant_examples:
  "formatDateTime host ''2025-03-05'' ''2:30 PM'' = ''2025-03-05T14:30:00-06:00''
   \<and> formatDateTime host ''2025-03-05'' ''14:30'' = ''2025-03-05T14:30:00-06:00''
   \<and> formatDateTime host ''2025-01-01'' ''12:00 AM'' = ''2025-01-01T00:00:00-06:00''
   \<and> formatDateTime host ''2025-01-01'' ''12:00 PM'' = ''2025-01-01T12:00:00-06:00''
   \<and> (timeMatch (formatDisplayTime timeStr) = Some (h, minutes, ap) \<longrightarrow>
        formatDateTime host dateStr timeStr =
          showInt (fullYear (parseDate host dateStr)) @ ''-''
          @ padStart2 (showInt (monthIndex (parseDate host dateStr) + 1)) @ ''-''
          @ padStart2 (showInt (dayOfMonth (parseDate host dateStr))) @ ''T''
          @ padStart2 (showNat (if toUpperCase ap = ''PM'' \<and> parseInt h \<noteq> 12 then parseInt h + 12
                                else if toUpperCase ap = ''AM'' \<and> parseInt h = 12 then 0
                                else parseInt h))
          @ '':'' @ minutes @ '':00-06:00'')"
proof -
  have 1: "formatDateTime host ''2025-03-05'' ''2:30 PM'' = ''2025-03-05T14:30:00-06:00''"
    by code_simp
  have 2: "formatDateTime host ''2025-03-05'' ''14:30'' = ''2025-03-05T14:30:00-06:00''"
    by code_simp
  have 3: "formatDateTime host ''2025-01-01'' ''12:00 AM'' = ''2025-01-01T00:00:00-06:00''"
    by code_simp
  have 4: "formatDateTime host ''2025-01-01'' ''12:00 PM'' = ''2025-01-01T12:00:00-06:00''"
    by code_simp
  have 5: "formatDateTime host dateStr timeStr =
          showInt (fullYear (parseDate host dateStr)) @ ''-''
          @ padStart2 (showInt (monthIndex (parseDate host dateStr) + 1)) @ ''-''
          @ padStart2 (showInt (dayOfMonth (parseDate host dateStr))) @ ''T''
          @ padStart2 (showNat (if toUpperCase ap = ''PM'' \<and> parseInt h \<noteq> 12 then parseInt h + 12
                                else if toUpperCase ap = ''AM'' \<and> parseInt h = 12 then 0
                                else parseInt h))
          @ '':'' @ minutes @ '':00-06:00''"
    if "timeMatch (formatDisplayTime timeStr) = Some (h, minutes, ap)"
    using that by (simp add: formatDateTime_def Let_def)
  from 1 2 3 4 5 show ?thesis by blast
qed


theorem canonical_instant_examples_witness:
  "timeMatch (formatDisplayTime ''7:05 pm'') = Some (''7'', ''05'', ''pm'')
   \<and> formatDateTime demoHost ''2025-03-05'' ''7:05 pm'' = ''2025-03-05T19:05:00-06:00''"
proof -
  have m: "timeMatch (formatDisplayTime ''7:05 pm'') = Some (''7'', ''05'', ''pm'')"
    by code_simp
  have "formatDateTime demoHost ''2025-03-05'' ''7:05 pm'' =
          showInt (fullYear (parseDate demoHost ''2025-03-05'')) @ ''-''
          @ padStart2 (showInt (monthIndex (parseDate demoHost ''2025-03-05'') + 1)) @ ''-''
          @ padStart2 (showInt (dayOfMonth (parseDate demoHost ''2025-03-05''))) @ ''T''
          @ padStart2 (showNat (if toUpperCase ''pm'' = ''PM'' \<and> parseInt ''7'' \<noteq> 12 then parseInt ''7'' + 12
                                else if toUpperCase ''pm'' = ''AM'' \<and> parseInt ''7'' = 12 then 0
                                else parseInt ''7''))
          @ '':'' @ ''05'' @ '':00-06:00''"
    using canonical_instant_examples [of demoHost "''7:05 pm''" "''7''" "''05''" "''pm''" "''2025-03-05''"] m
    by blast
  also have "\<dots> = ''2025-03-05T19:05:00-06:00''" by code_simp
  finally show ?thesis using m by simp
qed

text \<open>
  Claim C10. CalendarButton's copies of \<open>parseDate\<close>, \<open>formatDisplayTime\<close> and
  \<open>formatDateTime\<close> are the same functions as CalendarEventRenderer's, so the single and
  the bulk request carry the same instant for the same event.
\<close>

theorem duplicated_date_time_logic:
  "CalendarButton_parseDate = parseDate
   \<and> CalendarButton_formatDisplayTime = formatDisplayTime
   \<and> CalendarButton_formatDateTime = formatDateTime
   \<and> inviteDate (payloadEvent (singlePayload host props em event))
       = inviteDate (payloadEvent (bulkPayload host props em event))"
proof -
  have p: "CalendarButton_parseDate = parseDate"
    by (simp add: fun_eq_iff CalendarButton_parseDate_def parseDate_def)
  have t: "CalendarButton_formatDisplayTime = formatDisplayTime"
    by (simp add: fun_eq_iff CalendarButton_formatDisplayTime_def formatDisplayTime_def)
  have f: "CalendarButton_formatDateTime = formatDateTime"
    by (simp add: fun_eq_iff CalendarButton_formatDateTime_def formatDateTime_def p t)
  show ?thesis by (simp add: p t f singlePayload_def bulkPayload_def)
qed

section \<open>The description of an invitation\<close>

text \<open>
  Claim C8, as amended. In both handlers the description is the attribution
  (\<open>curatedByText\<close> when given and non-empty, else the default built from the organisation
  name), a blank line, the event's description, a blank line, and the line
  \<open>View original event: <link>\<close> when \<open>originalLink\<close> is present and non-empty. The second
  blank line is part of the template and stays when there is no link.
\<close>

theorem invite_description:
  "inviteDescription (payloadEvent (bulkPayload host props em event))
     = (case curatedByText props of
          None \<Rightarrow> ''Curated by '' @ orgName props @ '' AI Assistant''
        | Some t \<Rightarrow> if t = [] then ''Curated by '' @ orgName props @ '' AI Assistant'' else t)
       @ [newline, newline] @ description event @ [newline, newline]
       @ (case originalLink event of
            None \<Rightarrow> []
          | Some l \<Rightarrow> if l = [] then [] else ''View original event: '' @ l)
   \<and> inviteDescription (payloadEvent (singlePayload host props em event))
     = inviteDescription (payloadEvent (bulkPayload host props em event))"
  by (simp add: bulkPayload_def singlePayload_def describeEvent_def byText_def truthy_def
           split: option.splits)


text \<open>Without a link the description ends with the two line breaks: the claim as stated fails.\<close>

theorem description_trailing_counterexample:
  "originalLink demoEvent = None
   \<and> inviteDescription (payloadEvent (bulkPayload demoHost demoProps ''a@b.co'' demoEvent))
       = ''Curated by DeSilo AI Assistant'' @ [newline, newline] @ ''Pitch night'' @ [newline, newline]
   \<and> inviteDescription (payloadEvent (bulkPayload demoHost demoProps ''a@b.co'' demoEvent))
       \<noteq> ''Curated by DeSilo AI Assistant'' @ [newline, newline] @ ''Pitch night''"
  by (simp add: bulkPayload_def describeEvent_def byText_def truthy_def demoEvent_def
        demoProps_def orgName_def)

section \<open>The gate of the two handlers\<close>

lemma reachable_isValid: "reachable st \<Longrightarrow> isValid st = validateEmail (email st)"
proof (induction rule: reachable.induct)
  case (start stored)
  show ?case by (simp add: initialState_def validateEmail_def)
next
  case (mount st)
  then show ?case by (simp add: mountEffect_def)
next
  case (edit st v)
  then show ?case by (simp add: handleEmailChange_def Let_def)
next
  case (toggle st b)
  then show ?case by simp
next
  case (awaiting st)
  then show ?case by simp
next
  case (single st host props event fetch)
  then show ?case
    by (simp add: handleAddToCalendar_def Let_def split: FetchOutcome.splits bool.splits)
next
  case (bulk st host props events fetch)
  then show ?case by (simp add: handleAddAllToCalendar_def Let_def)
qed

text \<open>
  Claim C9. In every state a component can reach, \<open>isValid\<close> is the email check of the
  address held. So with an address that fails the check, and also while a dispatch is in
  flight, both handlers issue no request, make no callback and leave the state alone; the
  bulk handler does the same on an empty batch.
\<close>

theorem dispatch_gate:
  assumes "reachable st"
  shows "(\<not> validateEmail (email st) \<or> isAdding st \<longrightarrow>
            handleAddToCalendar host props event fetch st
              = \<lparr> requests = [], callback = None, after = st \<rparr>
          \<and> handleAddAllToCalendar host props events fetch st
              = \<lparr> requests = [], callback = None, after = st \<rparr>)
         \<and> handleAddAllToCalendar host props [] fetch st
              = \<lparr> requests = [], callback = None, after = st \<rparr>"
  using reachable_isValid [OF assms]
  by (auto simp: handleAddToCalendar_def handleAddAllToCalendar_def)


theorem dispatch_gate_witness:
  "\<not> validateEmail ''not-an-email''
   \<and> (\<forall>host props event events fetch.
        handleAddToCalendar host props event fetch (handleEmailChange (initialState None) ''not-an-email'')
          = \<lparr> requests = [], callback = None,
              after = handleEmailChange (initialState None) ''not-an-email'' \<rparr>
        \<and> handleAddAllToCalendar host props events fetch (handleEmailChange (initialState None) ''not-an-email'')
          = \<lparr> requests = [], callback = None,
              after = handleEmailChange (initialState None) ''not-an-email'' \<rparr>)
   \<and> isAdding (demoState\<lparr> isAdding := True \<rparr>)
   \<and> (\<forall>host props event events fetch.
        handleAddToCalendar host props event fetch (demoState\<lparr> isAdding := True \<rparr>)
          = \<lparr> requests = [], callback = None, after = demoState\<lparr> isAdding := True \<rparr> \<rparr>
        \<and> handleAddAllToCalendar host props events fetch (demoState\<lparr> isAdding := True \<rparr>)
          = \<lparr> requests = [], callback = None, after = demoState\<lparr> isAdding := True \<rparr> \<rparr>)"
proof -
  have v: "\<not> validateEmail ''not-an-email''"
    by (simp add: validateEmail_def atomChar_def isSpace_def)
  have w: "validateEmail ''a@b.co''"
    by (simp add: validateEmail_def atomChar_def isSpace_def)
  have r1: "reachable (handleEmailChange (initialState None) ''not-an-email'')"
    by (intro reachable.edit reachable.start)
  have e1: "email (handleEmailChange (initialState None) ''not-an-email'') = ''not-an-email''"
    by (simp add: handleEmailChange_def Let_def)
  have "reachable demoState"
    unfolding demoState_def by (intro reachable.edit reachable.start)
  moreover have "isValid demoState" "\<not> isAdding demoState"
    using w by (simp_all add: demoState_def handleEmailChange_def initialState_def)
  ultimately have r2: "reachable (demoState\<lparr> isAdding := True \<rparr>)"
    by (rule reachable.awaiting)
  show ?thesis
    using v dispatch_gate [OF r1] dispatch_gate [OF r2] by (simp add: e1)
qed

section \<open>What the bulk handler counts\<close>

lemma showNat_1: "n < 10 \<Longrightarrow> showNat n = [digitChar n]"
  by (subst showNat.simps) simp

text \<open>
  Claim C1. The bulk handler counts the requests whose promise was fulfilled, that is,
  every request the network answered, whatever the answer's status. A response that is
  not \<open>ok\<close> is therefore counted as sent, where \<open>handleAddToCalendar\<close> checks \<open>response.ok\<close>.
  The witness is a batch of three whose second request is answered with a failure status:
  the handler reports three invitations sent.
\<close>

theorem bulk_counts_fulfilled:
  assumes "isValid st" and "\<not> isAdding st" and "events \<noteq> []"
  shows "callback (handleAddAllToCalendar host props events fetch st) =
           (let bodies = map (bulkPayload host props (email st)) events;
                n = length (filter (\<lambda>i. fetch i (bodies ! i) \<noteq> Rejected) [0 ..< length events])
            in if n > 0
               then Some (True, showNat n @ '' calendar invite'' @ (if n > 1 then ''s'' else [])
                            @ '' sent to '' @ email st @ ''!'')
               else Some (False, ''Failed to add events to calendar. Please try again.''))"
proof -
  have "isFulfilled r = (r \<noteq> Rejected)" for r
    by (cases r) (simp_all add: isFulfilled_def)
  then have "filter isFulfilled (map f xs) = map f (filter (\<lambda>i. f i \<noteq> Rejected) xs)" for f :: "nat \<Rightarrow> FetchOutcome" and xs
    by (induction xs) auto
  then show ?thesis
    using assms by (simp add: handleAddAllToCalendar_def Let_def)
qed

theorem bulk_counts_fulfilled_witness:
  "isValid demoState \<and> \<not> isAdding demoState
   \<and> callback (handleAddAllToCalendar demoHost demoProps [demoEvent, demoEvent, demoEvent]
        (\<lambda>i p. if i = 1 then Responded False else Responded True) demoState)
       = Some (True, ''3 calendar invites sent to a@b.co!'')"
proof -
  have v: "validateEmail ''a@b.co''"
    by (simp add: validateEmail_def atomChar_def isSpace_def)
  have s: "isValid demoState" "\<not> isAdding demoState" "email demoState = ''a@b.co''"
    using v by (simp_all add: demoState_def handleEmailChange_def initialState_def)
  have u: "[0 ..< 3] = [0, 1, 2]" by (simp add: upt_rec)
  show ?thesis
    using bulk_counts_fulfilled [OF s(1) s(2), of "[demoEvent, demoEvent, demoEvent]" demoHost demoProps
        "\<lambda>i p. if i = 1 then Responded False else Responded True"]
    by (simp add: s u showNat_1 digitChar_def)
qed

text \<open>
  Claim C2. The component renders the bulk button, and with it \<open>handleAddAllToCalendar\<close>,
  only for two events or more; a single event is rendered as one CalendarButton. When
  every request of such a batch is answered and every answer is a failure status, the
  bulk handler still reports success for the whole batch; the single handler reports the
  failure on the same response.
\<close>

theorem bulk_http_failures_reported_sent:
  assumes "isValid st" and "\<not> isAdding st" and "2 \<le> length events"
    and "\<forall>i p. fetch i p = Responded False"
  shows "callback (handleAddAllToCalendar host props events fetch st) =
           Some (True, showNat (length events) @ '' calendar invites sent to '' @ email st @ ''!'')"
proof -
  from assms(3) have "events \<noteq> []" "0 < length events" "1 < length events" by auto
  with assms(1,2,4) show ?thesis
    by (simp add: handleAddAllToCalendar_def Let_def isFulfilled_def)
qed

theorem bulk_http_failures_reported_sent_witness:
  "isValid demoState \<and> \<not> isAdding demoState
   \<and> callback (handleAddAllToCalendar demoHost demoProps [demoEvent, demoEvent]
        (\<lambda>i p. Responded False) demoState)
       = Some (True, ''2 calendar invites sent to a@b.co!'')
   \<and> callback (handleAddToCalendar demoHost demoProps demoEvent (\<lambda>i p. Responded False) demoState)
       = Some (False, ''Failed to add to calendar. Please try again.'')"
proof -
  have v: "validateEmail ''a@b.co''"
    by (simp add: validateEmail_def atomChar_def isSpace_def)
  have s: "isValid demoState" "\<not> isAdding demoState" "email demoState = ''a@b.co''"
    using v by (simp_all add: demoState_def handleEmailChange_def initialState_def)
  show ?thesis
    using bulk_http_failures_reported_sent [OF s(1) s(2), of "[demoEvent, demoEvent]"
        "\<lambda>i p. Responded False" demoHost demoProps]
    by (simp add: s showNat_1 digitChar_def handleAddToCalendar_def)
qed


section \<open>Stripping the event blocks\<close>

lemma matchLit_iff: "matchLit p s = Some r \<longleftrightarrow> s = p @ r"
proof
  show "matchLit p s = Some r \<Longrightarrow> s = p @ r" by (rule matchLit_append)
  show "s = p @ r \<Longrightarrow> matchLit p s = Some r"
    by (induction p arbitrary: s) auto
qed

lemma matchOpen_iff:
  "matchOpen s = Some r \<longleftrightarrow> s = ''---EVENT---'' @ r \<or> s = ''---EVENTS---'' @ r"
proof
  assume "matchOpen s = Some r"
  then obtain r1 where r1: "s = ''---EVENT'' @ r1"
    and c: "(case matchLit ''S---'' r1 of Some r' \<Rightarrow> Some r' | None \<Rightarrow> matchLit ''---'' r1) = Some r"
    by (auto simp: matchOpen_def matchLit_iff split: option.splits)
  from c have "r1 = ''S---'' @ r \<or> r1 = ''---'' @ r"
    by (auto simp: matchLit_iff split: option.splits)
  with r1 show "s = ''---EVENT---'' @ r \<or> s = ''---EVENTS---'' @ r" by auto
next
  assume "s = ''---EVENT---'' @ r \<or> s = ''---EVENTS---'' @ r"
  then show "matchOpen s = Some r"
    by (auto simp: matchOpen_def)
qed


lemma matchClose_iff:
  "matchClose s = Some r \<longleftrightarrow> s = ''---END-EVENT---'' @ r \<or> s = ''---END-EVENTS---'' @ r"
proof
  assume "matchClose s = Some r"
  then obtain r1 where r1: "s = ''---END-EVENT'' @ r1"
    and c: "(case matchLit ''S---'' r1 of Some r' \<Rightarrow> Some r' | None \<Rightarrow> matchLit ''---'' r1) = Some r"
    by (auto simp: matchClose_def matchLit_iff split: option.splits)
  from c have "r1 = ''S---'' @ r \<or> r1 = ''---'' @ r"
    by (auto simp: matchLit_iff split: option.splits)
  with r1 show "s = ''---END-EVENT---'' @ r \<or> s = ''---END-EVENTS---'' @ r" by auto
next
  assume "s = ''---END-EVENT---'' @ r \<or> s = ''---END-EVENTS---'' @ r"
  then show "matchClose s = Some r"
    by (auto simp: matchClose_def)
qed

lemma matchClose_extend: "matchClose x = Some z \<Longrightarrow> matchClose (x @ y) = Some (z @ y)"
  unfolding matchClose_iff by auto

lemma matchClose_cut: "matchClose (x @ y) = None \<Longrightarrow> matchClose x = None"
proof (rule ccontr)
  assume n: "matchClose (x @ y) = None" and "matchClose x \<noteq> None"
  then obtain z where "matchClose x = Some z" by auto
  from matchClose_extend [OF this, of y] n show False by simp
qed

lemma matchClose_nonempty: "matchClose cl = Some r \<Longrightarrow> cl \<noteq> []"
  unfolding matchClose_iff by auto

lemma findClose_span:
  "findClose s = Some (b, r) \<Longrightarrow>
     \<exists>cl. s = b @ cl @ r \<and> matchClose (cl @ r) = Some r \<and> findClose (b @ cl) = Some (b, [])"
proof (induction s arbitrary: b)
  case Nil
  then show ?case by simp
next
  case (Cons c cs)
  show ?case
  proof (cases "matchClose (c # cs)")
    case (Some r')
    with Cons.prems have b: "b = []" and r: "r' = r" by auto
    from Some r obtain cl where cl: "c # cs = cl @ r" "matchClose cl = Some []"
      unfolding matchClose_iff by auto
    from cl(2) have "cl \<noteq> []" by (rule matchClose_nonempty)
    then obtain d ds where d: "cl = d # ds" by (cases cl) auto
    with cl(2) have "findClose cl = Some ([], [])" by simp
    moreover from Some r cl(1) have "matchClose (cl @ r) = Some r" by simp
    ultimately show ?thesis using cl(1) b by auto
  next
    case None
    with Cons.prems obtain b' where b': "findClose cs = Some (b', r)" "b = c # b'"
      by (auto split: option.splits)
    from Cons.IH [OF b'(1)] obtain cl where
      cl: "cs = b' @ cl @ r" "matchClose (cl @ r) = Some r" "findClose (b' @ cl) = Some (b', [])"
      by blast
    from None cl(1) have "matchClose ((c # b' @ cl) @ r) = None" by simp
    then have "matchClose (c # b' @ cl) = None" by (rule matchClose_cut)
    with cl(3) have "findClose (c # b' @ cl) = Some (c # b', [])" by simp
    with cl(1,2) b'(2) show ?thesis by auto
  qed
qed

lemma blockAt_span:
  assumes "blockAt s = Some (b, r)"
  shows "\<exists>sp. s = sp @ r \<and> blockAt sp = Some (b, [])"
proof -
  from assms obtain r1 where o: "matchOpen s = Some r1" and f: "findClose r1 = Some (b, r)"
    by (auto simp: blockAt_def split: option.splits)
  from findClose_span [OF f] obtain cl where
    cl: "r1 = b @ cl @ r" "findClose (b @ cl) = Some (b, [])" by blast
  from o obtain op where op: "s = op @ r1" "matchOpen (op @ (b @ cl)) = Some (b @ cl)"
    unfolding matchOpen_iff by auto
  have "blockAt (op @ b @ cl) = Some (b, [])"
    using op(2) cl(2) by (simp add: blockAt_def)
  moreover have "s = (op @ b @ cl) @ r" using op(1) cl(1) by simp
  ultimately show ?thesis by blast
qed



lemma strip_skip: "blockAt (c # cs) = None \<Longrightarrow> stripEventBlocks (c # cs) = c # stripEventBlocks cs"
  by simp

lemma blocks_skip: "blockAt (c # cs) = None \<Longrightarrow> eventBlocks (c # cs) = eventBlocks cs"
  by simp

lemma strip_block: "blockAt (c # cs) = Some (b, r) \<Longrightarrow> stripEventBlocks (c # cs) = stripEventBlocks r"
  by simp

lemma blocks_block: "blockAt (c # cs) = Some (b, r) \<Longrightarrow> eventBlocks (c # cs) = b # eventBlocks r"
  by simp

lemma spansOf_Nil: "spansOf [] [] []"
  by (simp add: spansOf_def)

lemma spansOf_skip_Nil:
  assumes n: "blockAt (c # cs) = None" and r: "spansOf cs [] rest"
  shows "spansOf (c # cs) [] (c # rest)"
proof -
  from r have r1: "cs = rest" and r2: "stripEventBlocks cs = rest" and r3: "eventBlocks cs = []"
    unfolding spansOf_def by auto
  have "stripEventBlocks (c # cs) = c # rest"
    unfolding strip_skip [OF n] r2 ..
  moreover have "eventBlocks (c # cs) = []"
    unfolding blocks_skip [OF n] r3 ..
  ultimately show ?thesis by (simp add: spansOf_def r1)
qed

lemma spansOf_skip_Cons:
  assumes n: "blockAt (c # cs) = None" and r: "spansOf cs ((kept, span) # segs) rest"
  shows "spansOf (c # cs) ((c # kept, span) # segs) rest"
proof -
  from r have r1: "cs = concat (map (\<lambda>(kept, span). kept @ span) ((kept, span) # segs)) @ rest"
    and r2: "stripEventBlocks cs = concat (map fst ((kept, span) # segs)) @ rest"
    and r3: "map (\<lambda>(kept, span). blockAt span) ((kept, span) # segs)
               = map (\<lambda>b. Some (b, [])) (eventBlocks cs)"
    unfolding spansOf_def by blast+
  have 1: "c # cs = concat (map (\<lambda>(kept, span). kept @ span) ((c # kept, span) # segs)) @ rest"
    using r1 by simp
  have 2: "stripEventBlocks (c # cs) = concat (map fst ((c # kept, span) # segs)) @ rest"
    unfolding strip_skip [OF n] r2 by simp
  have 3: "map (\<lambda>(kept, span). blockAt span) ((c # kept, span) # segs)
             = map (\<lambda>b. Some (b, [])) (eventBlocks (c # cs))"
    unfolding blocks_skip [OF n] r3 [symmetric] by simp
  from 1 2 3 show ?thesis unfolding spansOf_def by blast
qed

lemma spansOf_block:
  assumes at: "blockAt s = Some (b, r)" and s: "s = c # cs" and r: "spansOf r segs rest"
    and sp: "s = sp @ r" "blockAt sp = Some (b, [])"
  shows "spansOf s (([], sp) # segs) rest"
proof -
  from r have r1: "r = concat (map (\<lambda>(kept, span). kept @ span) segs) @ rest"
    and r2: "stripEventBlocks r = concat (map fst segs) @ rest"
    and r3: "map (\<lambda>(kept, span). blockAt span) segs = map (\<lambda>b. Some (b, [])) (eventBlocks r)"
    unfolding spansOf_def by blast+
  have 1: "s = concat (map (\<lambda>(kept, span). kept @ span) (([], sp) # segs)) @ rest"
    using sp(1) by (simp add: r1 [symmetric])
  have "stripEventBlocks s = stripEventBlocks r"
    using at unfolding s by (rule strip_block)
  then have 2: "stripEventBlocks s = concat (map fst (([], sp) # segs)) @ rest"
    by (simp add: r2)
  have "eventBlocks s = b # eventBlocks r"
    using at unfolding s by (rule blocks_block)
  then have 3: "map (\<lambda>(kept, span). blockAt span) (([], sp) # segs)
                 = map (\<lambda>b. Some (b, [])) (eventBlocks s)"
    by (simp add: r3 sp(2))
  from 1 2 3 show ?thesis unfolding spansOf_def by blast
qed

lemma strip_spans: "\<exists>segs rest. spansOf content segs rest"
proof (induction content rule: eventBlocks.induct)
  case 1
  from spansOf_Nil show ?case by blast
next
  case (2 c cs)
  show ?case
  proof (cases "blockAt (c # cs)")
    case None
    from 2(1) [OF None] obtain segs rest where IH: "spansOf cs segs rest" by blast
    show ?thesis
    proof (cases segs)
      case Nil
      with IH spansOf_skip_Nil [OF None] show ?thesis by blast
    next
      case (Cons seg segs')
      obtain kept span where "seg = (kept, span)" by (cases seg)
      with IH Cons spansOf_skip_Cons [OF None] show ?thesis by blast
    qed
  next
    case (Some m)
    obtain b r where m: "m = (b, r)" by (cases m)
    from Some m have at: "blockAt (c # cs) = Some (b, r)" by simp
    from 2(2) [OF Some m [symmetric]] obtain segs rest where IH: "spansOf r segs rest" by blast
    from blockAt_span [OF at] obtain sp where sp: "c # cs = sp @ r" "blockAt sp = Some (b, [])"
      by blast
    from spansOf_block [OF at refl IH sp] show ?thesis by blast
  qed
qed

lemma strip_length: "length (stripEventBlocks s) \<le> length s"
proof (induction s rule: stripEventBlocks.induct)
  case 1
  show ?case by simp
next
  case (2 c cs)
  show ?case
  proof (cases "blockAt (c # cs)")
    case None
    with 2(1) show ?thesis by simp
  next
    case (Some m)
    obtain b r where m: "m = (b, r)" by (cases m)
    from 2(2) [OF Some m [symmetric]] have "length (stripEventBlocks r) \<le> length r" .
    moreover from Some m have "length r < length (c # cs)" by (auto dest: blockAt_length)
    ultimately show ?thesis using Some m by simp
  qed
qed

lemma strip_fixed_iff: "stripEventBlocks s = s \<longleftrightarrow> eventBlocks s = []"
proof (induction s rule: stripEventBlocks.induct)
  case 1
  show ?case by simp
next
  case (2 c cs)
  show ?case
  proof (cases "blockAt (c # cs)")
    case None
    with 2(1) show ?thesis by simp
  next
    case (Some m)
    obtain b r where m: "m = (b, r)" by (cases m)
    from Some m have "length r < length (c # cs)" by (auto dest: blockAt_length)
    with strip_length [of r] have "length (stripEventBlocks r) < length (c # cs)" by simp
    then have "stripEventBlocks r \<noteq> c # cs" by auto
    with Some m show ?thesis by simp
  qed
qed

text \<open>
  Claim C7, as amended. \<open>stripEventBlocks\<close> deletes exactly the spans that one scan from
  the left matches (as many as the parser reads blocks) and keeps all other text as it
  is and in order. On a text without a complete block it changes nothing, so a second
  application is a no-op exactly when the first output holds no complete block.
\<close>

theorem strip_removes_scanned_spans:
  "(\<exists>segs rest. spansOf content segs rest)
   \<and> (eventBlocks content = [] \<longrightarrow> stripEventBlocks content = content)
   \<and> (stripEventBlocks (stripEventBlocks content) = stripEventBlocks content
        \<longleftrightarrow> eventBlocks (stripEventBlocks content) = [])"
  using strip_spans [of content] strip_fixed_iff [of content]
    strip_fixed_iff [of "stripEventBlocks content"] by blast

theorem strip_removes_scanned_spans_witness:
  "stripEventBlocks demoContent = ''Join us!  Bye.''
   \<and> eventBlocks (stripEventBlocks demoContent) = []
   \<and> stripEventBlocks (stripEventBlocks demoContent) = stripEventBlocks demoContent
   \<and> eventBlocks ''Join us!  Bye.'' = []
   \<and> stripEventBlocks ''Join us!  Bye.'' = ''Join us!  Bye.''"
proof -
  have 1: "stripEventBlocks demoContent = ''Join us!  Bye.''" by code_simp
  have 2: "eventBlocks ''Join us!  Bye.'' = []" by code_simp
  from strip_removes_scanned_spans [of "''Join us!  Bye.''"] 2
  have 3: "stripEventBlocks ''Join us!  Bye.'' = ''Join us!  Bye.''" by blast
  from strip_removes_scanned_spans [of demoContent] 1 2
  have 4: "stripEventBlocks (stripEventBlocks demoContent) = stripEventBlocks demoContent"
    by simp
  from 1 2 3 4 show ?thesis by simp
qed

text \<open>
  Deleting a span can join the text on its two sides into a new block: stripping twice
  then differs from stripping once, and the claim as stated fails.
\<close>

theorem strip_not_idempotent_counterexample:
  "stripEventBlocks splicedContent = ''---EVENT---y---END-EVENT---''
   \<and> stripEventBlocks (stripEventBlocks splicedContent) = []
   \<and> stripEventBlocks (stripEventBlocks splicedContent) \<noteq> stripEventBlocks splicedContent"
proof -
  have 1: "stripEventBlocks splicedContent = ''---EVENT---y---END-EVENT---''" by code_simp
  have 2: "stripEventBlocks ''---EVENT---y---END-EVENT---'' = []" by code_simp
  from 1 2 show ?thesis by simp
qed

section \<open>A single block with a single candidate\<close>
































section \<open>The shape of the canonical instant\<close>

lemma daysInMonth_range: "28 \<le> daysInMonth y m \<and> daysInMonth y m \<le> 31"
  by (simp add: daysInMonth_def)

lemma normDay_wellFormed:
  "0 \<le> m \<Longrightarrow> m \<le> 11 \<Longrightarrow> wellFormedDate (normDay y m d)"
proof (induction y m d rule: normDay.induct)
  case (1 y m d)
  show ?case
  proof (cases "d < 1")
    case True
    let ?y = "if m = 0 then y - 1 else y" and ?m = "if m = 0 then 11 else m - 1"
    from 1(3,4) have "0 \<le> ?m" "?m \<le> 11" by auto
    from 1(1) [OF True refl refl this]
    have "wellFormedDate (normDay ?y ?m (d + daysInMonth ?y ?m))" .
    with True show ?thesis by (subst normDay.simps) (simp add: Let_def)
  next
    case False
    show ?thesis
    proof (cases "daysInMonth y m < d")
      case True
      let ?y = "if m = 11 then y + 1 else y" and ?m = "if m = 11 then 0 else m + 1"
      from 1(3,4) have "0 \<le> ?m" "?m \<le> 11" by auto
      from 1(2) [OF False True refl refl this]
      have "wellFormedDate (normDay ?y ?m (d - daysInMonth y m))" .
      with False True show ?thesis by (subst normDay.simps) (simp add: Let_def)
    next
      case nb: False
      from False nb daysInMonth_range [of y m] 1(3,4)
      have "wellFormedDate \<lparr> fullYear = y, monthIndex = m, dayOfMonth = d \<rparr>"
        by (simp add: wellFormedDate_def)
      with False nb show ?thesis by (subst normDay.simps) simp
    qed
  qed
qed

lemma newDate_wellFormed: "wellFormedDate (newDate y m d)"
  unfolding newDate_def Let_def by (rule normDay_wellFormed) simp_all

lemma parseDate_wellFormed:
  assumes "wellFormedHost host"
  shows "wellFormedDate (parseDate host dateStr)"
proof (cases "matchIsoDate dateStr")
  case (Some t)
  then show ?thesis
    by (cases t) (simp add: parseDate_def newDate_wellFormed)
next
  case None
  show ?thesis
  proof (cases "dateFromString host dateStr")
    case n: None
    with None assms show ?thesis by (simp add: parseDate_def wellFormedHost_def)
  next
    case (Some d)
    from assms have "case dateFromString host dateStr of None \<Rightarrow> True | Some d \<Rightarrow> wellFormedDate d"
      unfolding wellFormedHost_def by blast
    with Some None show ?thesis by (simp add: parseDate_def)
  qed
qed

lemma isDigit_digitChar: "isDigit (digitChar n)"
proof -
  have "\<forall>k<10. isDigit (''0123456789'' ! k)"
    by (simp add: eval_nat_numeral All_less_Suc isDigit_def)
  moreover have "n mod 10 < 10" by simp
  ultimately show ?thesis unfolding digitChar_def by blast
qed

lemma showNat_step: "10 \<le> n \<Longrightarrow> showNat n = showNat (n div 10) @ [digitChar n]"
  by (subst showNat.simps) simp

lemma showNat_digits: "list_all isDigit (showNat n)"
proof (induction n rule: showNat.induct)
  case (1 n)
  show ?case
  proof (cases "n < 10")
    case True
    then show ?thesis by (simp add: showNat_1 isDigit_digitChar)
  next
    case False
    with 1 show ?thesis by (simp add: showNat_step isDigit_digitChar)
  qed
qed

lemma showNat_len2: "10 \<le> n \<Longrightarrow> n < 100 \<Longrightarrow> length (showNat n) = 2"
proof -
  assume n: "10 \<le> n" "n < 100"
  then have "n div 10 < 10" by arith
  then show ?thesis by (simp add: showNat_step [OF n(1)] showNat_1)
qed

lemma showNat_len3: "100 \<le> n \<Longrightarrow> n < 1000 \<Longrightarrow> length (showNat n) = 3"
proof -
  assume n: "100 \<le> n" "n < 1000"
  then have "10 \<le> n div 10" "n div 10 < 100" "10 \<le> n" by arith+
  then show ?thesis by (simp add: showNat_step [of n] showNat_len2)
qed

lemma showNat_len4: "1000 \<le> n \<Longrightarrow> n < 10000 \<Longrightarrow> length (showNat n) = 4"
proof -
  assume n: "1000 \<le> n" "n < 10000"
  then have "100 \<le> n div 10" "n div 10 < 1000" "10 \<le> n" by arith+
  then show ?thesis by (simp add: showNat_step [of n] showNat_len3)
qed

lemma padStart2_len: "n < 100 \<Longrightarrow> length (padStart2 (showNat n)) = 2"
  by (cases "n < 10") (simp_all add: padStart2_def showNat_1 showNat_len2)

lemma zeros_digits: "list_all isDigit (replicate k (CHR ''0''))"
  by (induction k) (simp_all add: isDigit_def)

lemma padStart2_digits: "list_all isDigit (padStart2 (showNat n))"
  by (simp add: padStart2_def showNat_digits zeros_digits)

lemma showInt_nat: "0 \<le> i \<Longrightarrow> showInt i = showNat (nat i)"
  by (simp add: showInt_def)

lemma takeDigits_exact:
  "length ds = n \<Longrightarrow> list_all isDigit ds \<Longrightarrow> takeDigits n (ds @ r) = Some (ds, r)"
  by (induction n "ds @ r" arbitrary: ds r rule: takeDigits.induct) (auto simp: Cons_eq_append_conv)

lemma takeDigits_sound:
  "takeDigits n s = Some (ds, r) \<Longrightarrow> length ds = n \<and> list_all isDigit ds \<and> s = ds @ r"
  by (induction n s arbitrary: ds r rule: takeDigits.induct) (auto split: if_splits option.splits)

lemma shape_build:
  assumes "length Y = 4" "list_all isDigit Y" "length M = 2" "list_all isDigit M"
    "length D = 2" "list_all isDigit D" "length H = 2" "list_all isDigit H"
    "length Mi = 2" "list_all isDigit Mi"
  shows "canonicalShape (Y @ ''-'' @ M @ ''-'' @ D @ ''T'' @ H @ '':'' @ Mi @ '':00-06:00'')"
proof -
  have s: "takeDigits 2 ''00-06:00'' = Some (''00'', ''-06:00'')"
    by (simp add: eval_nat_numeral isDigit_def)
  show ?thesis
    unfolding canonicalShape_def using assms
    by (simp add: takeDigits_exact s)
qed

lemma digitVal_le: "isDigit c \<Longrightarrow> digitVal c \<le> 9"
proof -
  assume "isDigit c"
  then have "of_char c \<le> (57 :: nat)" by (simp add: isDigit_def less_eq_char_def)
  then show ?thesis unfolding digitVal_def by linarith
qed

lemma parseInt_le_99:
  assumes "list_all isDigit h" and "length h \<le> 2"
  shows "parseInt h \<le> 99"
proof (cases h)
  case Nil
  then show ?thesis by (simp add: parseInt_def)
next
  case (Cons a as)
  show ?thesis
  proof (cases as)
    case Nil
    with Cons assms digitVal_le [of a] show ?thesis by (simp add: parseInt_def)
  next
    case c2: (Cons b bs)
    with Cons assms have "bs = []" by simp
    with Cons c2 assms digitVal_le [of a] digitVal_le [of b] show ?thesis
      by (simp add: parseInt_def)
  qed
qed

lemma takeDigits12_sound:
  "takeDigits12 s = Some (h, r) \<Longrightarrow> length h \<le> 2 \<and> list_all isDigit h"
  by (auto simp: takeDigits12_def split: option.splits dest!: takeDigits_sound)

lemma matchHM_sound:
  "matchHM s = Some (h, mi, r) \<Longrightarrow>
     length h \<le> 2 \<and> list_all isDigit h \<and> length mi = 2 \<and> list_all isDigit mi"
  by (auto simp: matchHM_def split: option.splits dest!: takeDigits_sound takeDigits12_sound)

lemma timeAt_sound:
  "timeAt s = Some (h, mi, ap) \<Longrightarrow>
     length h \<le> 2 \<and> list_all isDigit h \<and> length mi = 2 \<and> list_all isDigit mi"
  by (auto simp: timeAt_def split: option.splits dest!: matchHM_sound)

lemma timeMatch_sound:
  "timeMatch s = Some (h, mi, ap) \<Longrightarrow>
     length h \<le> 2 \<and> list_all isDigit h \<and> length mi = 2 \<and> list_all isDigit mi"
proof (induction s)
  case Nil
  then show ?case by simp
next
  case (Cons c cs)
  show ?case
  proof (cases "timeAt (c # cs)")
    case None
    with Cons show ?thesis by simp
  next
    case (Some m)
    with Cons.prems have "timeAt (c # cs) = Some (h, mi, ap)" by simp
    then show ?thesis by (rule timeAt_sound)
  qed
qed

lemma pad_month_day:
  assumes "0 \<le> i" and "i \<le> 99"
  shows "length (padStart2 (showInt i)) = 2 \<and> list_all isDigit (padStart2 (showInt i))"
proof -
  from assms have "nat i < 100" by simp
  with assms(1) show ?thesis
    by (simp add: showInt_nat padStart2_len padStart2_digits)
qed

lemma year_four:
  assumes "1000 \<le> y" and "y \<le> 9999"
  shows "length (showInt y) = 4 \<and> list_all isDigit (showInt y)"
proof -
  from assms have "1000 \<le> nat y" "nat y < 10000" "0 \<le> y" by simp_all
  then show ?thesis by (simp add: showInt_nat showNat_len4 showNat_digits)
qed

text \<open>
  Claim C6, as amended. \<open>formatDateTime\<close> is total and its result always ends in the
  offset \<open>-06:00\<close>. The result is the year without padding, the month and the day padded
  to two digits, and the time: \<open>12:00:00\<close> when the normalised time does not match the
  pattern, and otherwise the hour after the meridiem rule, padded to two digits at
  least, the two matched minute digits and \<open>00\<close>. On a well-formed host the month and the
  day have exactly two digits. The result has the shape \<open>YYYY-MM-DDTHH:MM:SS-06:00\<close>
  whenever, on a well-formed host, the year of the parsed date has four digits (1000 to
  9999) and the matched hour is not 88 or more with PM: neither the year nor the hour is
  checked for its range.
\<close>

theorem canonical_instant_total:
  "(\<exists>body. formatDateTime host dateStr timeStr = body @ ''-06:00'')
    \<and> (timeMatch (formatDisplayTime timeStr) = None \<longrightarrow>
         formatDateTime host dateStr timeStr =
           showInt (fullYear (parseDate host dateStr)) @ ''-''
           @ padStart2 (showInt (monthIndex (parseDate host dateStr) + 1)) @ ''-''
           @ padStart2 (showInt (dayOfMonth (parseDate host dateStr))) @ ''T12:00:00-06:00'')
    \<and> (\<forall>h mi ap. timeMatch (formatDisplayTime timeStr) = Some (h, mi, ap) \<longrightarrow>
         formatDateTime host dateStr timeStr =
           showInt (fullYear (parseDate host dateStr)) @ ''-''
           @ padStart2 (showInt (monthIndex (parseDate host dateStr) + 1)) @ ''-''
           @ padStart2 (showInt (dayOfMonth (parseDate host dateStr))) @ ''T''
           @ padStart2 (showNat (if toUpperCase ap = ''PM'' \<and> parseInt h \<noteq> 12 then parseInt h + 12
                                 else if toUpperCase ap = ''AM'' \<and> parseInt h = 12 then 0
                                 else parseInt h))
           @ '':'' @ mi @ '':00-06:00''
         \<and> length mi = 2 \<and> list_all isDigit mi
         \<and> 2 \<le> length (padStart2 (showNat (if toUpperCase ap = ''PM'' \<and> parseInt h \<noteq> 12 then parseInt h + 12
                                 else if toUpperCase ap = ''AM'' \<and> parseInt h = 12 then 0
                                 else parseInt h)))
         \<and> list_all isDigit (padStart2 (showNat (if toUpperCase ap = ''PM'' \<and> parseInt h \<noteq> 12 then parseInt h + 12
                                 else if toUpperCase ap = ''AM'' \<and> parseInt h = 12 then 0
                                 else parseInt h))))
    \<and> (wellFormedHost host \<longrightarrow>
         length (padStart2 (showInt (monthIndex (parseDate host dateStr) + 1))) = 2
         \<and> list_all isDigit (padStart2 (showInt (monthIndex (parseDate host dateStr) + 1)))
         \<and> length (padStart2 (showInt (dayOfMonth (parseDate host dateStr)))) = 2
         \<and> list_all isDigit (padStart2 (showInt (dayOfMonth (parseDate host dateStr)))))
    \<and> (0 \<le> fullYear (parseDate host dateStr) \<longrightarrow>
         list_all isDigit (showInt (fullYear (parseDate host dateStr))))
    \<and> (wellFormedHost host
        \<and> 1000 \<le> fullYear (parseDate host dateStr) \<and> fullYear (parseDate host dateStr) \<le> 9999
        \<and> (\<forall>h mi ap. timeMatch (formatDisplayTime timeStr) = Some (h, mi, ap) \<longrightarrow>
               \<not> (toUpperCase ap = ''PM'' \<and> 88 \<le> parseInt h))
       \<longrightarrow> canonicalShape (formatDateTime host dateStr timeStr))"
proof -
  define D where "D = parseDate host dateStr"
  define Y where "Y = showInt (fullYear D)"
  define M where "M = padStart2 (showInt (monthIndex D + 1))"
  define Dd where "Dd = padStart2 (showInt (dayOfMonth D))"
  have none: "formatDateTime host dateStr timeStr = Y @ ''-'' @ M @ ''-'' @ Dd @ ''T12:00:00-06:00''"
    if "timeMatch (formatDisplayTime timeStr) = None"
    using that by (simp add: formatDateTime_def Let_def Y_def M_def Dd_def D_def)
  have some: "formatDateTime host dateStr timeStr =
      Y @ ''-'' @ M @ ''-'' @ Dd @ ''T''
        @ padStart2 (showNat (if toUpperCase ap = ''PM'' \<and> parseInt h \<noteq> 12 then parseInt h + 12
                              else if toUpperCase ap = ''AM'' \<and> parseInt h = 12 then 0
                              else parseInt h))
        @ '':'' @ mi @ '':00-06:00''"
    if "timeMatch (formatDisplayTime timeStr) = Some (h, mi, ap)" for h mi ap
    using that by (simp add: formatDateTime_def Let_def Y_def M_def Dd_def D_def)
  have 1: "\<exists>body. formatDateTime host dateStr timeStr = body @ ''-06:00''"
  proof (cases "timeMatch (formatDisplayTime timeStr)")
    case None
    from none [OF None]
    have "formatDateTime host dateStr timeStr = (Y @ ''-'' @ M @ ''-'' @ Dd @ ''T12:00:00'') @ ''-06:00''"
      by simp
    then show ?thesis by blast
  next
    case (Some t)
    obtain h mi ap where "t = (h, mi, ap)" by (cases t)
    from some [OF Some [unfolded this]]
    have "formatDateTime host dateStr timeStr =
      (Y @ ''-'' @ M @ ''-'' @ Dd @ ''T''
        @ padStart2 (showNat (if toUpperCase ap = ''PM'' \<and> parseInt h \<noteq> 12 then parseInt h + 12
                              else if toUpperCase ap = ''AM'' \<and> parseInt h = 12 then 0
                              else parseInt h))
        @ '':'' @ mi @ '':00'') @ ''-06:00''"
      by simp
    then show ?thesis by blast
  qed
  have 3: "canonicalShape (formatDateTime host dateStr timeStr)"
    if host: "wellFormedHost host"
      and yr: "1000 \<le> fullYear D" "fullYear D \<le> 9999"
      and hr: "\<forall>h mi ap. timeMatch (formatDisplayTime timeStr) = Some (h, mi, ap) \<longrightarrow>
               \<not> (toUpperCase ap = ''PM'' \<and> 88 \<le> parseInt h)"
  proof -
    have wf: "wellFormedDate D" unfolding D_def by (rule parseDate_wellFormed [OF host])
    then have m: "length M = 2 \<and> list_all isDigit M"
      unfolding M_def by (intro pad_month_day) (simp_all add: wellFormedDate_def)
    from wf have d: "length Dd = 2 \<and> list_all isDigit Dd"
      unfolding Dd_def by (intro pad_month_day) (simp_all add: wellFormedDate_def)
    from year_four [OF yr] have y: "length Y = 4 \<and> list_all isDigit Y" by (simp add: Y_def)
    show ?thesis
    proof (cases "timeMatch (formatDisplayTime timeStr)")
      case None
      have "canonicalShape (Y @ ''-'' @ M @ ''-'' @ Dd @ ''T'' @ ''12'' @ '':'' @ ''00'' @ '':00-06:00'')"
        using y m d by (intro shape_build) (simp_all add: isDigit_def)
      with none [OF None] show ?thesis by simp
    next
      case (Some t)
      obtain h mi ap where t: "t = (h, mi, ap)" by (cases t)
      note tm = Some [unfolded t]
      define hours where "hours = (if toUpperCase ap = ''PM'' \<and> parseInt h \<noteq> 12 then parseInt h + 12
                              else if toUpperCase ap = ''AM'' \<and> parseInt h = 12 then 0
                              else parseInt h)"
      from timeMatch_sound [OF tm]
      have h: "length h \<le> 2" "list_all isDigit h" and mi: "length mi = 2" "list_all isDigit mi"
        by simp_all
      from parseInt_le_99 [OF h(2) h(1)] hr tm have "hours < 100"
        by (auto simp: hours_def)
      then have "length (padStart2 (showNat hours)) = 2" by (rule padStart2_len)
      then have "canonicalShape (Y @ ''-'' @ M @ ''-'' @ Dd @ ''T'' @ padStart2 (showNat hours)
                   @ '':'' @ mi @ '':00-06:00'')"
        using y m d mi by (intro shape_build) (simp_all add: padStart2_digits)
      with some [OF tm] show ?thesis by (simp add: hours_def)
    qed
  qed
  have 2: "formatDateTime host dateStr timeStr =
      Y @ ''-'' @ M @ ''-'' @ Dd @ ''T''
        @ padStart2 (showNat (if toUpperCase ap = ''PM'' \<and> parseInt h \<noteq> 12 then parseInt h + 12
                              else if toUpperCase ap = ''AM'' \<and> parseInt h = 12 then 0
                              else parseInt h))
        @ '':'' @ mi @ '':00-06:00''
      \<and> length mi = 2 \<and> list_all isDigit mi
      \<and> 2 \<le> length (padStart2 (showNat (if toUpperCase ap = ''PM'' \<and> parseInt h \<noteq> 12 then parseInt h + 12
                              else if toUpperCase ap = ''AM'' \<and> parseInt h = 12 then 0
                              else parseInt h)))
      \<and> list_all isDigit (padStart2 (showNat (if toUpperCase ap = ''PM'' \<and> parseInt h \<noteq> 12 then parseInt h + 12
                              else if toUpperCase ap = ''AM'' \<and> parseInt h = 12 then 0
                              else parseInt h)))"
    if tm: "timeMatch (formatDisplayTime timeStr) = Some (h, mi, ap)" for h mi ap
  proof -
    from timeMatch_sound [OF tm] have "length mi = 2" "list_all isDigit mi" by simp_all
    moreover have "2 \<le> length (padStart2 s)" for s by (simp add: padStart2_def)
    ultimately show ?thesis using some [OF tm] padStart2_digits by blast
  qed
  have 4: "length M = 2 \<and> list_all isDigit M \<and> length Dd = 2 \<and> list_all isDigit Dd"
    if host: "wellFormedHost host"
  proof -
    have wf: "wellFormedDate D" unfolding D_def by (rule parseDate_wellFormed [OF host])
    then have "length M = 2 \<and> list_all isDigit M"
      unfolding M_def by (intro pad_month_day) (simp_all add: wellFormedDate_def)
    moreover from wf have "length Dd = 2 \<and> list_all isDigit Dd"
      unfolding Dd_def by (intro pad_month_day) (simp_all add: wellFormedDate_def)
    ultimately show ?thesis by blast
  qed
  have 5: "list_all isDigit Y" if "0 \<le> fullYear D"
    using that by (simp add: Y_def showInt_nat showNat_digits)
  from 1 none 2 3 4 5 show ?thesis
    unfolding Y_def M_def Dd_def D_def by blast
qed

theorem canonical_instant_total_witness:
  "wellFormedHost demoHost
   \<and> timeMatch (formatDisplayTime ''noon'') = None
   \<and> formatDateTime demoHost ''2025-03-05'' ''noon'' = ''2025-03-05T12:00:00-06:00''
   \<and> timeMatch (formatDisplayTime ''14:30'') = Some (''2'', ''30'', ''PM'')
   \<and> formatDateTime demoHost ''2025-03-05'' ''14:30'' = ''2025-03-05T14:30:00-06:00''
   \<and> canonicalShape (formatDateTime demoHost ''2025-03-05'' ''14:30'')"
proof -
  have w: "wellFormedHost demoHost"
    by (simp add: wellFormedHost_def wellFormedDate_def demoHost_def)
  have n: "timeMatch (formatDisplayTime ''noon'') = None" by code_simp
  have t: "timeMatch (formatDisplayTime ''14:30'') = Some (''2'', ''30'', ''PM'')" by code_simp
  have p: "parseInt ''2'' = 2" by code_simp
  have y: "fullYear (parseDate demoHost ''2025-03-05'') = 2025" by code_simp
  have s: "showInt (fullYear (parseDate demoHost ''2025-03-05'')) @ ''-''
           @ padStart2 (showInt (monthIndex (parseDate demoHost ''2025-03-05'') + 1)) @ ''-''
           @ padStart2 (showInt (dayOfMonth (parseDate demoHost ''2025-03-05''))) @ ''T12:00:00-06:00''
           = ''2025-03-05T12:00:00-06:00''" by code_simp
  have m: "showInt (fullYear (parseDate demoHost ''2025-03-05'')) @ ''-''
           @ padStart2 (showInt (monthIndex (parseDate demoHost ''2025-03-05'') + 1)) @ ''-''
           @ padStart2 (showInt (dayOfMonth (parseDate demoHost ''2025-03-05''))) @ ''T''
           @ padStart2 (showNat (if toUpperCase ''PM'' = ''PM'' \<and> parseInt ''2'' \<noteq> 12 then parseInt ''2'' + 12
                                 else if toUpperCase ''PM'' = ''AM'' \<and> parseInt ''2'' = 12 then 0
                                 else parseInt ''2''))
           @ '':'' @ ''30'' @ '':00-06:00''
           = ''2025-03-05T14:30:00-06:00''" by code_simp
  from canonical_instant_total [of demoHost "''2025-03-05''" "''noon''"] n s
  have 1: "formatDateTime demoHost ''2025-03-05'' ''noon'' = ''2025-03-05T12:00:00-06:00''"
    by simp
  from canonical_instant_total [of demoHost "''2025-03-05''" "''14:30''"] t
  have "formatDateTime demoHost ''2025-03-05'' ''14:30'' =
           showInt (fullYear (parseDate demoHost ''2025-03-05'')) @ ''-''
           @ padStart2 (showInt (monthIndex (parseDate demoHost ''2025-03-05'') + 1)) @ ''-''
           @ padStart2 (showInt (dayOfMonth (parseDate demoHost ''2025-03-05''))) @ ''T''
           @ padStart2 (showNat (if toUpperCase ''PM'' = ''PM'' \<and> parseInt ''2'' \<noteq> 12 then parseInt ''2'' + 12
                                 else if toUpperCase ''PM'' = ''AM'' \<and> parseInt ''2'' = 12 then 0
                                 else parseInt ''2''))
           @ '':'' @ ''30'' @ '':00-06:00''"
    by blast
  with m have 2: "formatDateTime demoHost ''2025-03-05'' ''14:30'' = ''2025-03-05T14:30:00-06:00''"
    by simp
  have hr: "\<forall>h mi ap. timeMatch (formatDisplayTime ''14:30'') = Some (h, mi, ap) \<longrightarrow>
               \<not> (toUpperCase ap = ''PM'' \<and> 88 \<le> parseInt h)"
    using t p by simp
  from canonical_instant_total [of demoHost "''2025-03-05''" "''14:30''"]
  have "wellFormedHost demoHost
        \<and> 1000 \<le> fullYear (parseDate demoHost ''2025-03-05'')
        \<and> fullYear (parseDate demoHost ''2025-03-05'') \<le> 9999
        \<and> (\<forall>h mi ap. timeMatch (formatDisplayTime ''14:30'') = Some (h, mi, ap) \<longrightarrow>
               \<not> (toUpperCase ap = ''PM'' \<and> 88 \<le> parseInt h))
       \<longrightarrow> canonicalShape (formatDateTime demoHost ''2025-03-05'' ''14:30'')"
    by blast
  with w y hr have 3: "canonicalShape (formatDateTime demoHost ''2025-03-05'' ''14:30'')"
    by simp
  from w n 1 t 2 3 show ?thesis by blast
qed

text \<open>
  The time \<open>99:00 PM\<close> gives the hour 111, and the date \<open>0999-01-01\<close> gives the year 999:
  neither result has the fixed shape, and the claim as stated fails.
\<close>

theorem canonical_shape_counterexample:
  "formatDateTime demoHost ''2025-03-05'' ''99:00 PM'' = ''2025-03-05T111:00:00-06:00''
   \<and> \<not> canonicalShape (formatDateTime demoHost ''2025-03-05'' ''99:00 PM'')
   \<and> formatDateTime demoHost ''0999-01-01'' ''10:00 AM'' = ''999-01-01T10:00:00-06:00''
   \<and> \<not> canonicalShape (formatDateTime demoHost ''0999-01-01'' ''10:00 AM'')"
proof -
  have 1: "formatDateTime demoHost ''2025-03-05'' ''99:00 PM'' = ''2025-03-05T111:00:00-06:00''"
    by code_simp
  have 2: "\<not> canonicalShape ''2025-03-05T111:00:00-06:00''" by code_simp
  have 3: "formatDateTime demoHost ''0999-01-01'' ''10:00 AM'' = ''999-01-01T10:00:00-06:00''"
    by code_simp
  have 4: "\<not> canonicalShape ''999-01-01T10:00:00-06:00''" by code_simp
  from 1 2 3 4 show ?thesis by simp
qed

end
